theory Spec2Isabelle
  imports Main "HOL-Library.Option_ord"
begin

section \<open>The storage engine of the time tracker (database.py)\<close>

text \<open>
  The engine keeps two SQLite tables.  Each table is modelled as the list of its rows in
  insertion order, each operation as a function from the stored state to the new stored
  state (and the value the Python function returns).  The wall clock
  (\<^verbatim>\<open>datetime.now()\<close>) is an argument of the operations that read it.

  Timestamps are counted in microseconds, the resolution of Python's \<^verbatim>\<open>datetime\<close>.
  The source stores them as ISO-8601 text and compares them as text in \<^verbatim>\<open>get_stats\<close>;
  for years of four digits that order is the order of the instants, so the model compares
  the numbers.  Names are byte strings; \<^verbatim>\<open>str.lower\<close> is modelled on ASCII letters.
\<close>

subsection \<open>Rows and stored state\<close>

record category =
  cat_id :: int
  cat_user_id :: int
  cat_name :: string

record time_entry =
  te_id :: int
  te_user_id :: int
  te_category_id :: int
  te_task_name :: string
  te_started_at :: int
  te_stopped_at :: "int option"
  te_duration_seconds :: "int option"

text \<open>
  Both tables declare \<^verbatim>\<open>INTEGER PRIMARY KEY AUTOINCREMENT\<close>: SQLite keeps, per table,
  the largest row id it ever generated (table \<^verbatim>\<open>sqlite_sequence\<close>).  These two counters
  are part of the stored state.
\<close>

record db =
  categories :: "category list"
  time_entries :: "time_entry list"
  cat_seq :: int
  entry_seq :: int

text \<open>\<^verbatim>\<open>init_db\<close> on a fresh file: both tables exist and are empty.\<close>

definition init_db :: db where
  "init_db = \<lparr>categories = [], time_entries = [], cat_seq = 0, entry_seq = 0\<rparr>"

text \<open>
  The row id SQLite generates for an insert that gives none: one more than the largest
  id in the table (1 for an empty table), and never below the table's counter plus one.
\<close>

definition new_rowid :: "int list \<Rightarrow> int \<Rightarrow> int" where
  "new_rowid ids seq =
     (let v = (case ids of [] \<Rightarrow> 1 | i # rest \<Rightarrow> fold max rest i + 1)
      in if v < seq + 1 then seq + 1 else v)"

datatype error = IntegrityError

definition DEFAULT_CATEGORIES :: "string list" where
  "DEFAULT_CATEGORIES = [''work'', ''study'', ''sport'', ''other'']"

subsection \<open>Categories\<close>

text \<open>The constraint \<^verbatim>\<open>UNIQUE(user_id, name)\<close>: is there a row it would clash with?\<close>

definition category_exists :: "int \<Rightarrow> string \<Rightarrow> db \<Rightarrow> bool" where
  "category_exists user_id name d =
     list_ex (\<lambda>c. cat_user_id c = user_id \<and> cat_name c = name) (categories d)"

text \<open>
  \<^verbatim>\<open>INSERT OR IGNORE INTO categories (user_id, name) VALUES (?, ?)\<close>.  SQLite generates
  the row id before it checks the constraint, so an ignored insert still advances the
  table's counter; it adds no row.
\<close>

definition insert_or_ignore_category :: "int \<Rightarrow> string \<Rightarrow> db \<Rightarrow> db" where
  "insert_or_ignore_category user_id name d =
     (let rid = new_rowid (map cat_id (categories d)) (cat_seq d)
      in if category_exists user_id name d then d\<lparr>cat_seq := rid\<rparr>
         else d\<lparr>categories := categories d @
                    [\<lparr>cat_id = rid, cat_user_id = user_id, cat_name = name\<rparr>],
                 cat_seq := rid\<rparr>)"

definition ensure_default_categories :: "int \<Rightarrow> db \<Rightarrow> db" where
  "ensure_default_categories user_id d =
     fold (insert_or_ignore_category user_id) DEFAULT_CATEGORIES d"

text \<open>\<^verbatim>\<open>SELECT id, name FROM categories WHERE user_id = ? ORDER BY id\<close>\<close>

definition get_categories :: "int \<Rightarrow> db \<Rightarrow> (int \<times> string) list" where
  "get_categories user_id d =
     map (\<lambda>c. (cat_id c, cat_name c))
       (sort_key cat_id (filter (\<lambda>c. cat_user_id c = user_id) (categories d)))"

text \<open>
  The plain \<^verbatim>\<open>INSERT INTO categories\<close>: a clash with the uniqueness constraint raises
  \<^verbatim>\<open>IntegrityError\<close> and the statement changes nothing.
\<close>

definition insert_category :: "int \<Rightarrow> string \<Rightarrow> db \<Rightarrow> error + db" where
  "insert_category user_id name d =
     (if category_exists user_id name d then Inl IntegrityError
      else (let rid = new_rowid (map cat_id (categories d)) (cat_seq d)
            in Inr (d\<lparr>categories := categories d @
                        [\<lparr>cat_id = rid, cat_user_id = user_id, cat_name = name\<rparr>],
                      cat_seq := rid\<rparr>)))"

definition lower_char :: "char \<Rightarrow> char" where
  "lower_char c =
     (let n = (of_char c :: nat) in if 65 \<le> n \<and> n \<le> 90 then char_of (n + 32) else c)"

definition py_lower :: "string \<Rightarrow> string" where
  "py_lower s = map lower_char s"

text \<open>
  \<^verbatim>\<open>add_category\<close>: the insert of the lowercased name; the \<^verbatim>\<open>except\<close> clause turns
  the integrity error into the result \<^verbatim>\<open>False\<close>, and the connection is closed without
  a commit.
\<close>

definition add_category :: "int \<Rightarrow> string \<Rightarrow> db \<Rightarrow> bool \<times> db" where
  "add_category user_id name d =
     (case insert_category user_id (py_lower name) d of
        Inr d' \<Rightarrow> (True, d')
      | Inl IntegrityError \<Rightarrow> (False, d))"

subsection \<open>Time entries\<close>

text \<open>
  \<^verbatim>\<open>start_entry\<close>: one \<^verbatim>\<open>INSERT INTO time_entries\<close> of the four given columns; the
  other two columns are NULL.  The connection it opens does not switch foreign keys on,
  so the declared reference to \<^verbatim>\<open>categories(id)\<close> is not checked, and no column gets a
  NULL that its \<^verbatim>\<open>NOT NULL\<close> forbids: the statement cannot fail on a constraint.
\<close>

definition start_entry :: "int \<Rightarrow> int \<Rightarrow> int \<Rightarrow> string \<Rightarrow> db \<Rightarrow> db" where
  "start_entry now user_id category_id task_name d =
     (let rid = new_rowid (map te_id (time_entries d)) (entry_seq d)
      in d\<lparr>time_entries := time_entries d @
              [\<lparr>te_id = rid, te_user_id = user_id, te_category_id = category_id,
                te_task_name = task_name, te_started_at = now,
                te_stopped_at = None, te_duration_seconds = None\<rparr>],
           entry_seq := rid\<rparr>)"

text \<open>\<^verbatim>\<open>time_entries te JOIN categories c ON te.category_id = c.id\<close>\<close>

definition joined :: "db \<Rightarrow> (time_entry \<times> category) list" where
  "joined d =
     [(te, c). te \<leftarrow> time_entries d, c \<leftarrow> categories d, te_category_id te = cat_id c]"

text \<open>The dictionary \<^verbatim>\<open>get_active_entry\<close> returns, and the one \<^verbatim>\<open>stop_active_entry\<close>
  returns, which has the key \<^verbatim>\<open>duration_seconds\<close> as well.\<close>

record active_entry =
  ae_id :: int
  ae_task_name :: string
  ae_started_at :: int
  ae_category :: string

record stopped_entry = active_entry +
  se_duration_seconds :: int

text \<open>
  \<^verbatim>\<open>get_active_entry\<close>: of the joined rows of the user with no stop timestamp, the one
  with the largest entry id (\<^verbatim>\<open>ORDER BY te.id DESC LIMIT 1\<close>).
\<close>

definition get_active_entry :: "int \<Rightarrow> db \<Rightarrow> active_entry option" where
  "get_active_entry user_id d =
     (case sort_key (\<lambda>r. - te_id (fst r))
             (filter (\<lambda>r. te_user_id (fst r) = user_id \<and> te_stopped_at (fst r) = None)
                (joined d)) of
        [] \<Rightarrow> None
      | r # _ \<Rightarrow> Some \<lparr>ae_id = te_id (fst r), ae_task_name = te_task_name (fst r),
                       ae_started_at = te_started_at (fst r), ae_category = cat_name (snd r)\<rparr>)"

text \<open>
  \<^verbatim>\<open>int((now - started).total_seconds())\<close> on a difference of \<open>us\<close> microseconds:
  Python's \<^verbatim>\<open>int\<close> drops the fraction, rounding toward zero.  (\<^verbatim>\<open>total_seconds\<close> is
  a float, the correctly rounded quotient by \<open>10\<^sup>6\<close>; its integer part is the exact one
  for every difference shorter than some 285 years.)
\<close>

definition whole_seconds :: "int \<Rightarrow> int" where
  "whole_seconds us = (if 0 \<le> us then us div 1000000 else - ((- us) div 1000000))"

text \<open>\<^verbatim>\<open>UPDATE time_entries SET stopped_at = ?, duration_seconds = ? WHERE id = ?\<close>\<close>

definition update_stopped :: "int \<Rightarrow> int \<Rightarrow> int \<Rightarrow> db \<Rightarrow> db" where
  "update_stopped now duration entry_id d =
     d\<lparr>time_entries :=
         map (\<lambda>te. if te_id te = entry_id
                    then te\<lparr>te_stopped_at := Some now, te_duration_seconds := Some duration\<rparr>
                    else te)
           (time_entries d)\<rparr>"

definition stop_active_entry :: "int \<Rightarrow> int \<Rightarrow> db \<Rightarrow> stopped_entry option \<times> db" where
  "stop_active_entry now user_id d =
     (case get_active_entry user_id d of
        None \<Rightarrow> (None, d)
      | Some entry \<Rightarrow>
          (let duration = whole_seconds (now - ae_started_at entry)
           in (Some (active_entry.extend entry \<lparr>se_duration_seconds = duration\<rparr>),
               update_stopped now duration (ae_id entry) d)))"

subsection \<open>Queries over completed entries\<close>

text \<open>
  \<^verbatim>\<open>SUM(te.duration_seconds)\<close> over a group: NULLs are skipped, and the sum of no
  number at all is NULL.
\<close>

definition sql_sum :: "int option list \<Rightarrow> int option" where
  "sql_sum vs =
     (case filter (\<lambda>v. v \<noteq> None) vs of
        [] \<Rightarrow> None
      | w # ws \<Rightarrow> Some (sum_list (map the (w # ws))))"

text \<open>
  The rows \<^verbatim>\<open>get_stats\<close> aggregates: joined rows of the user that are stopped and
  started at or after \<open>since\<close>.
\<close>

definition stats_rows :: "int \<Rightarrow> int \<Rightarrow> db \<Rightarrow> (time_entry \<times> category) list" where
  "stats_rows since user_id d =
     filter (\<lambda>r. te_user_id (fst r) = user_id \<and> te_stopped_at (fst r) \<noteq> None
                  \<and> since \<le> te_started_at (fst r))
       (joined d)"

text \<open>
  \<^verbatim>\<open>get_stats\<close>: \<^verbatim>\<open>since\<close> is the clock minus \<^verbatim>\<open>days\<close> days;
  \<^verbatim>\<open>GROUP BY c.name\<close> makes one group for each category name among the rows, and
  \<^verbatim>\<open>ORDER BY total DESC\<close> puts the larger totals first (NULL counts as smallest).
  SQL leaves the order of equal totals open; the model keeps them in the order the
  stable sort gives.
\<close>

definition get_stats :: "int \<Rightarrow> int \<Rightarrow> int \<Rightarrow> db \<Rightarrow> (string \<times> int option) list" where
  "get_stats now user_id days d =
     (let since = now - days * 86400 * 1000000;
          rows = stats_rows since user_id d;
          groups = map (\<lambda>n. (n, sql_sum (map (\<lambda>r. te_duration_seconds (fst r))
                                     (filter (\<lambda>r. cat_name (snd r) = n) rows))))
                     (remdups (map (\<lambda>r. cat_name (snd r)) rows))
      in rev (sort_key snd groups))"



subsection \<open>Sequences of operations\<close>

text \<open>
  The mutating operations of the engine, each with the arguments of its call and, where
  the operation reads the clock, the time the clock shows.
\<close>

datatype operation =
    EnsureDefaultCategories int
  | AddCategory int string
  | StartEntry int int int string
  | StopActiveEntry int int

fun apply_operation :: "operation \<Rightarrow> db \<Rightarrow> db" where
  "apply_operation (EnsureDefaultCategories u) d = ensure_default_categories u d"
| "apply_operation (AddCategory u name) d = snd (add_category u name d)"
| "apply_operation (StartEntry now u category_id task_name) d =
     start_entry now u category_id task_name d"
| "apply_operation (StopActiveEntry now u) d = snd (stop_active_entry now u d)"

definition run :: "operation list \<Rightarrow> db \<Rightarrow> db" where
  "run ops d = fold apply_operation ops d"

text \<open>The user on whose behalf an operation is performed.\<close>

fun operation_user :: "operation \<Rightarrow> int" where
  "operation_user (EnsureDefaultCategories u) = u"
| "operation_user (AddCategory u name) = u"
| "operation_user (StartEntry now u category_id task_name) = u"
| "operation_user (StopActiveEntry now u) = u"

subsection \<open>Well-formed tables\<close>

text \<open>
  What the schema and the two writers of \<^verbatim>\<open>time_entries\<close> maintain: the primary key
  \<^verbatim>\<open>id\<close> has no duplicates, and a row has a duration exactly when it has a stop
  timestamp.
\<close>

definition entries_wf :: "db \<Rightarrow> bool" where
  "entries_wf d \<longleftrightarrow>
     distinct (map te_id (time_entries d))
     \<and> list_all (\<lambda>te. (te_duration_seconds te = None) = (te_stopped_at te = None))
         (time_entries d)"

subsection \<open>Example states\<close>

text \<open>
  A state with one completed entry: user 1 got the default categories, started
  ``write report'' under ``work'' at second 10 and stopped it at second 20.5.
\<close>

definition report_ops :: "operation list" where
  "report_ops = [EnsureDefaultCategories 1,
                 StartEntry 10000000 1 1 ''write report'',
                 StopActiveEntry 20500000 1]"

definition report_db :: db where
  "report_db =
     \<lparr>categories =
        [\<lparr>cat_id = 1, cat_user_id = 1, cat_name = ''work''\<rparr>,
         \<lparr>cat_id = 2, cat_user_id = 1, cat_name = ''study''\<rparr>,
         \<lparr>cat_id = 3, cat_user_id = 1, cat_name = ''sport''\<rparr>,
         \<lparr>cat_id = 4, cat_user_id = 1, cat_name = ''other''\<rparr>],
      time_entries =
        [\<lparr>te_id = 1, te_user_id = 1, te_category_id = 1, te_task_name = ''write report'',
          te_started_at = 10000000, te_stopped_at = Some 20500000,
          te_duration_seconds = Some 10\<rparr>],
      cat_seq = 4, entry_seq = 1\<rparr>"



text \<open>
  On the fresh database, user 2 starts an entry under category id 1, which no row of
  \<^verbatim>\<open>categories\<close> has.
\<close>

definition dangling_ops :: "operation list" where
  "dangling_ops = [StartEntry 10000000 2 1 ''walk'']"

definition dangling_db :: db where
  "dangling_db =
     \<lparr>categories = [],
      time_entries =
        [\<lparr>te_id = 1, te_user_id = 2, te_category_id = 1, te_task_name = ''walk'',
          te_started_at = 10000000, te_stopped_at = None, te_duration_seconds = None\<rparr>],
      cat_seq = 0, entry_seq = 1\<rparr>"

text \<open>
  Users 1 and 2 each add a category ``work''; user 2 then completes one entry under the
  category of user 1 (id 1, 10 seconds) and one under their own (id 2, 20 seconds).
\<close>

definition shared_name_ops :: "operation list" where
  "shared_name_ops =
     [AddCategory 1 ''work'', AddCategory 2 ''work'',
      StartEntry 10000000 2 1 ''a'', StopActiveEntry 20000000 2,
      StartEntry 30000000 2 2 ''b'', StopActiveEntry 50000000 2]"

definition shared_name_db :: db where
  "shared_name_db =
     \<lparr>categories =
        [\<lparr>cat_id = 1, cat_user_id = 1, cat_name = ''work''\<rparr>,
         \<lparr>cat_id = 2, cat_user_id = 2, cat_name = ''work''\<rparr>],
      time_entries =
        [\<lparr>te_id = 1, te_user_id = 2, te_category_id = 1, te_task_name = ''a'',
          te_started_at = 10000000, te_stopped_at = Some 20000000,
          te_duration_seconds = Some 10\<rparr>,
         \<lparr>te_id = 2, te_user_id = 2, te_category_id = 2, te_task_name = ''b'',
          te_started_at = 30000000, te_stopped_at = Some 50000000,
          te_duration_seconds = Some 20\<rparr>],
      cat_seq = 2, entry_seq = 2\<rparr>"

section \<open>Basic facts\<close>

subsection \<open>Row ids\<close>

lemma fold_max_ge: "(a::int) \<le> fold max xs a \<and> (\<forall>x\<in>set xs. x \<le> fold max xs a)"
proof (induction xs arbitrary: a)
  case Nil
  show ?case by simp
next
  case (Cons x xs)
  have 1: "max x a \<le> fold max xs (max x a)" and 2: "\<forall>y\<in>set xs. y \<le> fold max xs (max x a)"
    using Cons.IH [of "max x a"] by simp_all
  have "a \<le> max x a" and "x \<le> max x a" by simp_all
  with 1 have "a \<le> fold max xs (max x a)" and "x \<le> fold max xs (max x a)"
    by linarith+
  with 2 show ?case by simp
qed

lemma new_rowid_greater: "i \<in> set ids \<Longrightarrow> i < new_rowid ids seq"
proof (cases ids)
  case Nil
  assume "i \<in> set ids"
  with Nil show ?thesis by simp
next
  case (Cons a rest)
  assume "i \<in> set ids"
  with Cons have "i \<le> fold max rest a" using fold_max_ge [of a rest] by auto
  with Cons show ?thesis by (simp add: new_rowid_def Let_def)
qed

lemma new_rowid_fresh: "new_rowid ids seq \<notin> set ids"
  using new_rowid_greater [of "new_rowid ids seq" ids seq] by auto

lemma new_rowid_above_seq: "seq < new_rowid ids seq"
  by (simp add: new_rowid_def Let_def)

subsection \<open>The join and the active entry\<close>

lemma joined_iff:
  "(te, c) \<in> set (joined d) \<longleftrightarrow>
     te \<in> set (time_entries d) \<and> c \<in> set (categories d) \<and> te_category_id te = cat_id c"
  unfolding joined_def by (simp split: if_splits)

lemma joined_fst: "r \<in> set (joined d) \<Longrightarrow> fst r \<in> set (time_entries d)"
  using joined_iff [of "fst r" "snd r" d] by simp


lemma sort_key_Nil_iff: "sort_key f xs = [] \<longleftrightarrow> xs = []"
proof
  assume "sort_key f xs = []"
  then have "length (sort_key f xs) = 0" by simp
  then have "length xs = 0" by (simp only: length_sort)
  then show "xs = []" by simp
next
  assume "xs = []"
  then show "sort_key f xs = []" by simp
qed

lemma get_active_entry_None:
  "get_active_entry u d = None \<longleftrightarrow>
     (\<forall>r\<in>set (joined d). te_user_id (fst r) = u \<longrightarrow> te_stopped_at (fst r) \<noteq> None)"
proof -
  let ?rows = "filter (\<lambda>r. te_user_id (fst r) = u \<and> te_stopped_at (fst r) = None) (joined d)"
  have "get_active_entry u d = None \<longleftrightarrow> sort_key (\<lambda>r. - te_id (fst r)) ?rows = []"
    unfolding get_active_entry_def by (cases "sort_key (\<lambda>r. - te_id (fst r)) ?rows") simp_all
  also have "\<dots> \<longleftrightarrow> ?rows = []"
    by (rule sort_key_Nil_iff)
  also have "\<dots> \<longleftrightarrow>
      (\<forall>r\<in>set (joined d). te_user_id (fst r) = u \<longrightarrow> te_stopped_at (fst r) \<noteq> None)"
    unfolding filter_empty_conv by (rule ball_cong [OF refl]) simp
  finally show ?thesis .
qed

lemma get_active_entry_Some:
  assumes "get_active_entry u d = Some a"
  shows "\<exists>r\<in>set (joined d). te_user_id (fst r) = u \<and> te_stopped_at (fst r) = None
           \<and> ae_id a = te_id (fst r) \<and> ae_task_name a = te_task_name (fst r)
           \<and> ae_started_at a = te_started_at (fst r) \<and> ae_category a = cat_name (snd r)"
proof -
  let ?rows = "filter (\<lambda>r. te_user_id (fst r) = u \<and> te_stopped_at (fst r) = None) (joined d)"
  let ?sorted = "sort_key (\<lambda>r. - te_id (fst r)) ?rows"
  show ?thesis
  proof (cases ?sorted)
    case Nil
    with assms show ?thesis by (simp add: get_active_entry_def)
  next
    case (Cons r rest)
    with assms have a: "a = \<lparr>ae_id = te_id (fst r), ae_task_name = te_task_name (fst r),
        ae_started_at = te_started_at (fst r), ae_category = cat_name (snd r)\<rparr>"
      by (simp add: get_active_entry_def)
    have "r \<in> set ?sorted" using Cons by simp
    then have "r \<in> set ?rows" by (simp only: set_sort)
    then have r: "r \<in> set (joined d)" "te_user_id (fst r) = u" "te_stopped_at (fst r) = None"
      by simp_all
    have "te_user_id (fst r) = u \<and> te_stopped_at (fst r) = None
           \<and> ae_id a = te_id (fst r) \<and> ae_task_name a = te_task_name (fst r)
           \<and> ae_started_at a = te_started_at (fst r) \<and> ae_category a = cat_name (snd r)"
      using r a by simp
    with r(1) show ?thesis by (rule rev_bexI)
  qed
qed

lemma stop_active_entry_Some:
  "get_active_entry u d = Some a \<Longrightarrow>
   stop_active_entry now u d =
     (Some (active_entry.extend a \<lparr>se_duration_seconds = whole_seconds (now - ae_started_at a)\<rparr>),
      update_stopped now (whole_seconds (now - ae_started_at a)) (ae_id a) d)"
  by (simp add: stop_active_entry_def Let_def)

lemma report_db_reachable: "run report_ops init_db = report_db"
  by (simp add: run_def report_ops_def report_db_def init_db_def ensure_default_categories_def
      DEFAULT_CATEGORIES_def insert_or_ignore_category_def category_exists_def new_rowid_def
      start_entry_def stop_active_entry_def get_active_entry_def joined_def update_stopped_def
      whole_seconds_def Let_def)



section \<open>Stopping the active entry\<close>

text \<open>
  C6.  When no entry of the user has a null stop timestamp, \<^verbatim>\<open>stop_active_entry\<close>
  returns \<^verbatim>\<open>None\<close> and the stored state is what it was: the function returns before
  it writes anything.
\<close>

theorem stop_active_entry_no_active:
  assumes "\<forall>te\<in>set (time_entries d). te_user_id te = u \<longrightarrow> te_stopped_at te \<noteq> None"
  shows "stop_active_entry now u d = (None, d)"
proof -
  have "get_active_entry u d = None"
    unfolding get_active_entry_None
  proof (intro ballI impI)
    fix r
    assume "r \<in> set (joined d)" and u: "te_user_id (fst r) = u"
    then have "fst r \<in> set (time_entries d)" by (simp add: joined_fst)
    from bspec [OF assms this] u show "te_stopped_at (fst r) \<noteq> None" by simp
  qed
  then show ?thesis by (simp add: stop_active_entry_def)
qed

theorem stop_active_entry_no_active_witness:
  "map te_stopped_at (filter (\<lambda>te. te_user_id te = 1) (time_entries report_db)) = [Some 20500000]
   \<and> stop_active_entry 30000000 1 report_db = (None, report_db)"
proof -
  have h: "\<forall>te\<in>set (time_entries report_db). te_user_id te = 1 \<longrightarrow> te_stopped_at te \<noteq> None"
    by (simp add: report_db_def)
  have "map te_stopped_at (filter (\<lambda>te. te_user_id te = 1) (time_entries report_db))
          = [Some 20500000]"
    by (simp add: report_db_def)
  then show ?thesis using stop_active_entry_no_active [OF h, of 30000000] by (rule conjI)
qed




section \<open>Categories\<close>



lemma add_category_exists:
  "category_exists u (py_lower name) d \<Longrightarrow> add_category u name d = (False, d)"
  by (simp add: add_category_def insert_category_def)

lemma add_category_new:
  "\<not> category_exists u (py_lower name) d \<Longrightarrow>
   add_category u name d =
     (True, d\<lparr>categories := categories d @
                 [\<lparr>cat_id = new_rowid (map cat_id (categories d)) (cat_seq d),
                   cat_user_id = u, cat_name = py_lower name\<rparr>],
              cat_seq := new_rowid (map cat_id (categories d)) (cat_seq d)\<rparr>)"
  by (simp add: add_category_def insert_category_def Let_def)

lemma category_exists_append:
  "category_exists u n (d\<lparr>categories := categories d @ [c], cat_seq := s\<rparr>) \<longleftrightarrow>
     category_exists u n d \<or> (cat_user_id c = u \<and> cat_name c = n)"
  by (simp add: category_exists_def)






section \<open>Starting an entry\<close>

text \<open>
  C2 (as the code has it).  \<^verbatim>\<open>start_entry\<close> checks nothing about the task name: for
  every user, every task name (the empty one too) and every id of a category of that user,
  the call adds exactly one row, under an id no row had, with the given user, category and
  task name, the clock reading as start timestamp, and stop timestamp and duration null;
  the categories are untouched.
\<close>

theorem start_entry_creates_entry:
  assumes "list_ex (\<lambda>c. cat_id c = category_id \<and> cat_user_id c = u) (categories d)"
  shows "time_entries (start_entry now u category_id task_name d) =
           time_entries d @
             [\<lparr>te_id = new_rowid (map te_id (time_entries d)) (entry_seq d), te_user_id = u,
               te_category_id = category_id, te_task_name = task_name, te_started_at = now,
               te_stopped_at = None, te_duration_seconds = None\<rparr>]
       \<and> new_rowid (map te_id (time_entries d)) (entry_seq d) \<notin> set (map te_id (time_entries d))
       \<and> categories (start_entry now u category_id task_name d) = categories d"
  using new_rowid_fresh [of "map te_id (time_entries d)" "entry_seq d"]
  by (simp add: start_entry_def Let_def)

theorem start_entry_creates_entry_witness:
  "list_ex (\<lambda>c. cat_id c = 2 \<and> cat_user_id c = 1) (categories report_db)
   \<and> time_entries (start_entry 30000000 1 2 ''read'' report_db) =
       time_entries report_db @
         [\<lparr>te_id = 2, te_user_id = 1, te_category_id = 2, te_task_name = ''read'',
           te_started_at = 30000000, te_stopped_at = None, te_duration_seconds = None\<rparr>]"
proof -
  have h: "list_ex (\<lambda>c. cat_id c = 2 \<and> cat_user_id c = 1) (categories report_db)"
    by (simp add: report_db_def)
  have "new_rowid (map te_id (time_entries report_db)) (entry_seq report_db) = 2"
    by (simp add: report_db_def new_rowid_def)
  with start_entry_creates_entry [OF h, of 30000000 "''read''"] h show ?thesis by simp
qed

text \<open>
  An empty task name with a category of the user's own: the call adds the entry.
\<close>

theorem start_entry_empty_task_name:
  "list_ex (\<lambda>c. cat_id c = 1 \<and> cat_user_id c = 1) (categories report_db)
   \<and> time_entries (start_entry 30000000 1 1 [] report_db) =
       time_entries report_db @
         [\<lparr>te_id = 2, te_user_id = 1, te_category_id = 1, te_task_name = [],
           te_started_at = 30000000, te_stopped_at = None, te_duration_seconds = None\<rparr>]"
  by (simp add: report_db_def start_entry_def new_rowid_def Let_def)

section \<open>The default categories\<close>

lemma insert_or_ignore_new:
  "\<not> category_exists u n d \<Longrightarrow>
   insert_or_ignore_category u n d =
     d\<lparr>categories := categories d @
           [\<lparr>cat_id = new_rowid (map cat_id (categories d)) (cat_seq d),
             cat_user_id = u, cat_name = n\<rparr>],
       cat_seq := new_rowid (map cat_id (categories d)) (cat_seq d)\<rparr>"
  by (simp add: insert_or_ignore_category_def Let_def)

lemma insert_or_ignore_existing:
  "category_exists u n d \<Longrightarrow>
   insert_or_ignore_category u n d =
     d\<lparr>cat_seq := new_rowid (map cat_id (categories d)) (cat_seq d)\<rparr>"
  by (simp add: insert_or_ignore_category_def Let_def)

lemma category_exists_seq: "category_exists v n (d\<lparr>cat_seq := s\<rparr>) = category_exists v n d"
  by (simp add: category_exists_def)

text \<open>
  Inserting names the user does not have yet, one after the other: the table grows by one
  row for each name, in the order of the names, with ids that increase and lie above the
  counter.
\<close>

lemma fold_insert_new:
  assumes "distinct ns" and "\<forall>n\<in>set ns. \<not> category_exists u n d"
  shows "\<exists>rows. categories (fold (insert_or_ignore_category u) ns d) = categories d @ rows
           \<and> map cat_name rows = ns \<and> map cat_user_id rows = map (\<lambda>_. u) ns
           \<and> sorted_wrt (<) (map cat_id rows) \<and> (\<forall>i\<in>set (map cat_id rows). cat_seq d < i)
           \<and> time_entries (fold (insert_or_ignore_category u) ns d) = time_entries d
           \<and> entry_seq (fold (insert_or_ignore_category u) ns d) = entry_seq d"
  using assms
proof (induction ns arbitrary: d)
  case Nil
  show ?case by simp
next
  case (Cons n ns)
  let ?r = "new_rowid (map cat_id (categories d)) (cat_seq d)"
  let ?c = "\<lparr>cat_id = ?r, cat_user_id = u, cat_name = n\<rparr>"
  let ?d1 = "insert_or_ignore_category u n d"
  from Cons.prems have new: "\<not> category_exists u n d" by simp
  then have d1: "?d1 = d\<lparr>categories := categories d @ [?c], cat_seq := ?r\<rparr>"
    by (rule insert_or_ignore_new)
  have "\<forall>m\<in>set ns. \<not> category_exists u m ?d1"
  proof
    fix m
    assume m: "m \<in> set ns"
    with Cons.prems have "m \<noteq> n" and "\<not> category_exists u m d" by auto
    then show "\<not> category_exists u m ?d1"
      by (simp add: d1 category_exists_append)
  qed
  moreover from Cons.prems have "distinct ns" by simp
  ultimately obtain rows where
    rows: "categories (fold (insert_or_ignore_category u) ns ?d1) = categories ?d1 @ rows"
      "map cat_name rows = ns" "map cat_user_id rows = map (\<lambda>_. u) ns"
      "sorted_wrt (<) (map cat_id rows)" "\<forall>i\<in>set (map cat_id rows). cat_seq ?d1 < i"
      "time_entries (fold (insert_or_ignore_category u) ns ?d1) = time_entries ?d1"
      "entry_seq (fold (insert_or_ignore_category u) ns ?d1) = entry_seq ?d1"
    using Cons.IH [of ?d1] by blast
  have seq: "cat_seq ?d1 = ?r" by (simp add: d1)
  have above: "cat_seq d < ?r" by (rule new_rowid_above_seq)
  have 1: "categories (fold (insert_or_ignore_category u) (n # ns) d) = categories d @ (?c # rows)"
    using rows(1) by (simp add: d1)
  have 2: "map cat_name (?c # rows) = n # ns" using rows(2) by simp
  have 3: "map cat_user_id (?c # rows) = map (\<lambda>_. u) (n # ns)" using rows(3) by simp
  have 4: "sorted_wrt (<) (map cat_id (?c # rows))" using rows(4,5) seq by simp
  have 5: "\<forall>i\<in>set (map cat_id (?c # rows)). cat_seq d < i"
    using rows(5) seq above by auto
  have 6: "time_entries (fold (insert_or_ignore_category u) (n # ns) d) = time_entries d"
    using rows(6) by (simp add: d1)
  have 7: "entry_seq (fold (insert_or_ignore_category u) (n # ns) d) = entry_seq d"
    using rows(7) by (simp add: d1)
  show ?case by (rule exI [of _ "?c # rows"]) (intro conjI 1 2 3 4 5 6 7)
qed

text \<open>Inserting names the user has already: every insert is ignored.\<close>

lemma fold_insert_existing:
  assumes "\<forall>n\<in>set ns. category_exists u n d"
  shows "categories (fold (insert_or_ignore_category u) ns d) = categories d
       \<and> time_entries (fold (insert_or_ignore_category u) ns d) = time_entries d
       \<and> entry_seq (fold (insert_or_ignore_category u) ns d) = entry_seq d"
  using assms
proof (induction ns arbitrary: d)
  case Nil
  show ?case by simp
next
  case (Cons n ns)
  let ?d1 = "insert_or_ignore_category u n d"
  from Cons.prems have "category_exists u n d" by simp
  then have d1: "?d1 = d\<lparr>cat_seq := new_rowid (map cat_id (categories d)) (cat_seq d)\<rparr>"
    by (rule insert_or_ignore_existing)
  have "\<forall>m\<in>set ns. category_exists u m ?d1"
    using Cons.prems by (simp add: d1 category_exists_seq)
  from Cons.IH [OF this] show ?case by (simp add: d1)
qed

lemma distinct_DEFAULT_CATEGORIES: "distinct DEFAULT_CATEGORIES"
  by (simp add: DEFAULT_CATEGORIES_def)


lemma category_exists_rows:
  assumes "categories d' = categories d @ rows" and "map cat_name rows = ns"
    and "map cat_user_id rows = map (\<lambda>_. u) ns" and "n \<in> set ns"
  shows "category_exists u n d'"
proof -
  from assms(2,4) have "n \<in> set (map cat_name rows)" by simp
  then obtain i where i: "i < length rows" "cat_name (rows ! i) = n"
    by (metis in_set_conv_nth length_map nth_map)
  from i(1) assms(2) have "i < length ns" by (metis length_map)
  with i(1) have "map cat_user_id rows ! i = cat_user_id (rows ! i)"
    and "map (\<lambda>_. u) ns ! i = u" by simp_all
  with assms(3) have "cat_user_id (rows ! i) = u" by simp
  with i have "rows ! i \<in> set rows \<and> cat_user_id (rows ! i) = u \<and> cat_name (rows ! i) = n"
    by simp
  then have "\<exists>c\<in>set rows. cat_user_id c = u \<and> cat_name c = n" by (rule_tac x = "rows ! i" in bexI) simp_all
  then show ?thesis by (simp add: category_exists_def list_ex_iff assms(1)) blast
qed

lemma get_categories_rows:
  assumes "categories d' = categories d @ rows"
    and "filter (\<lambda>c. cat_user_id c = u) (categories d) = []"
    and "map cat_user_id rows = map (\<lambda>_. u) ns"
    and "sorted_wrt (<) (map cat_id rows)"
  shows "get_categories u d' = map (\<lambda>c. (cat_id c, cat_name c)) rows"
proof -
  have "\<forall>c\<in>set rows. cat_user_id c = u"
  proof
    fix c
    assume "c \<in> set rows"
    then have "cat_user_id c \<in> set (map cat_user_id rows)" by simp
    with assms(3) show "cat_user_id c = u" by auto
  qed
  then have "filter (\<lambda>c. cat_user_id c = u) rows = rows" by simp
  with assms(1,2) have f: "filter (\<lambda>c. cat_user_id c = u) (categories d') = rows" by simp
  from assms(4) have "sorted (map cat_id rows)" by (rule strict_sorted_imp_sorted)
  then have "sort_key cat_id rows = rows" by (rule sort_key_id_if_sorted)
  with f show ?thesis by (simp add: get_categories_def)
qed

text \<open>
  C5.  For a user with no category row, \<^verbatim>\<open>ensure_default_categories\<close> followed by
  \<^verbatim>\<open>get_categories\<close> lists exactly the names work, study, sport, other, in that
  order, each once and under an id of its own.  A second \<^verbatim>\<open>ensure_default_categories\<close>
  adds no row: both tables are what they were after the first call and
  \<^verbatim>\<open>get_categories\<close> returns the same list.
\<close>

theorem ensure_default_categories_fresh_user:
  assumes "\<forall>c\<in>set (categories d). cat_user_id c \<noteq> u"
  shows "map snd (get_categories u (ensure_default_categories u d)) =
           [''work'', ''study'', ''sport'', ''other'']
       \<and> distinct (map fst (get_categories u (ensure_default_categories u d)))
       \<and> categories (ensure_default_categories u (ensure_default_categories u d)) =
           categories (ensure_default_categories u d)
       \<and> time_entries (ensure_default_categories u (ensure_default_categories u d)) =
           time_entries (ensure_default_categories u d)
       \<and> get_categories u (ensure_default_categories u (ensure_default_categories u d)) =
           get_categories u (ensure_default_categories u d)"
proof -
  let ?d1 = "ensure_default_categories u d"
  let ?d2 = "ensure_default_categories u ?d1"
  from assms have none: "filter (\<lambda>c. cat_user_id c = u) (categories d) = []" by simp
  have "\<forall>n\<in>set DEFAULT_CATEGORIES. \<not> category_exists u n d"
    using assms by (simp add: category_exists_def list_ex_iff)
  from fold_insert_new [OF distinct_DEFAULT_CATEGORIES this]
  obtain rows where rows: "categories ?d1 = categories d @ rows"
    "map cat_name rows = DEFAULT_CATEGORIES"
    "map cat_user_id rows = map (\<lambda>_. u) DEFAULT_CATEGORIES"
    "sorted_wrt (<) (map cat_id rows)"
    unfolding ensure_default_categories_def by blast
  have g: "get_categories u ?d1 = map (\<lambda>c. (cat_id c, cat_name c)) rows"
    using rows(1) none rows(3,4) by (rule get_categories_rows)
  have names: "map snd (get_categories u ?d1) = [''work'', ''study'', ''sport'', ''other'']"
    using rows(2) by (simp add: g comp_def DEFAULT_CATEGORIES_def)
  have "map fst (get_categories u ?d1) = map cat_id rows" by (simp add: g comp_def)
  moreover from rows(4) have "distinct (map cat_id rows)" by (simp add: strict_sorted_iff)
  ultimately have ids: "distinct (map fst (get_categories u ?d1))" by simp
  have "\<forall>n\<in>set DEFAULT_CATEGORIES. category_exists u n ?d1"
  proof
    fix n
    assume "n \<in> set DEFAULT_CATEGORIES"
    with rows(1,2,3) show "category_exists u n ?d1" by (rule category_exists_rows)
  qed
  from fold_insert_existing [OF this]
  have same: "categories ?d2 = categories ?d1" "time_entries ?d2 = time_entries ?d1"
    unfolding ensure_default_categories_def by simp_all
  from same(1) have "get_categories u ?d2 = get_categories u ?d1"
    by (simp add: get_categories_def)
  with names ids same show ?thesis by simp
qed

theorem ensure_default_categories_fresh_user_witness:
  "filter (\<lambda>c. cat_user_id c = 2) (categories report_db) = []
   \<and> get_categories 2 (ensure_default_categories 2 report_db) =
       [(5, ''work''), (6, ''study''), (7, ''sport''), (8, ''other'')]
   \<and> get_categories 2 (ensure_default_categories 2 (ensure_default_categories 2 report_db)) =
       [(5, ''work''), (6, ''study''), (7, ''sport''), (8, ''other'')]"
proof -
  have h: "\<forall>c\<in>set (categories report_db). cat_user_id c \<noteq> 2"
    by (simp add: report_db_def)
  have 1: "get_categories 2 (ensure_default_categories 2 report_db) =
       [(5, ''work''), (6, ''study''), (7, ''sport''), (8, ''other'')]"
    by (simp add: report_db_def ensure_default_categories_def DEFAULT_CATEGORIES_def
        insert_or_ignore_category_def category_exists_def new_rowid_def get_categories_def Let_def)
  from h have "filter (\<lambda>c. cat_user_id c = 2) (categories report_db) = []" by simp
  with 1 ensure_default_categories_fresh_user [OF h] show ?thesis by simp
qed

section \<open>The lifecycle of a time entry\<close>

lemma insert_or_ignore_time_entries:
  "time_entries (insert_or_ignore_category u n d) = time_entries d"
  by (simp add: insert_or_ignore_category_def Let_def)

lemma ensure_default_categories_time_entries:
  "time_entries (ensure_default_categories u d) = time_entries d"
  by (simp add: ensure_default_categories_def DEFAULT_CATEGORIES_def
      insert_or_ignore_time_entries)

lemma add_category_time_entries: "time_entries (snd (add_category u name d)) = time_entries d"
  by (cases "category_exists u (py_lower name) d")
    (simp_all add: add_category_exists add_category_new)

lemma start_entry_time_entries:
  "time_entries (start_entry now u category_id task_name d) =
     time_entries d @
       [\<lparr>te_id = new_rowid (map te_id (time_entries d)) (entry_seq d), te_user_id = u,
         te_category_id = category_id, te_task_name = task_name, te_started_at = now,
         te_stopped_at = None, te_duration_seconds = None\<rparr>]"
  by (simp add: start_entry_def Let_def)

lemma update_stopped_ids:
  "map te_id (time_entries (update_stopped now duration i d)) = map te_id (time_entries d)"
  by (simp add: update_stopped_def comp_def if_distrib [of te_id] cong: if_cong)

lemma list_all_map: "list_all P xs \<Longrightarrow> (\<And>x. P x \<Longrightarrow> P (f x)) \<Longrightarrow> list_all P (map f xs)"
  by (induction xs) simp_all

lemma entries_wf_start_entry:
  assumes "entries_wf d"
  shows "entries_wf (start_entry now u category_id task_name d)"
  using assms new_rowid_fresh [of "map te_id (time_entries d)" "entry_seq d"]
  by (simp add: entries_wf_def start_entry_time_entries)

lemma entries_wf_update_stopped:
  assumes "entries_wf d"
  shows "entries_wf (update_stopped now duration i d)"
proof -
  let ?P = "\<lambda>te. (te_duration_seconds te = None) = (te_stopped_at te = None)"
  let ?f = "\<lambda>te. if te_id te = i
                then te\<lparr>te_stopped_at := Some now, te_duration_seconds := Some duration\<rparr>
                else te"
  have eq: "time_entries (update_stopped now duration i d) = map ?f (time_entries d)"
    by (simp add: update_stopped_def)
  from assms have "list_all ?P (time_entries d)" by (simp add: entries_wf_def)
  then have "list_all ?P (map ?f (time_entries d))" by (rule list_all_map) simp
  then have "list_all ?P (time_entries (update_stopped now duration i d))"
    by (simp only: eq)
  moreover have "distinct (map te_id (time_entries (update_stopped now duration i d)))"
    using assms by (simp only: update_stopped_ids entries_wf_def)
  ultimately show ?thesis by (simp add: entries_wf_def)
qed

lemma entries_wf_stop_active_entry:
  assumes "entries_wf d"
  shows "entries_wf (snd (stop_active_entry now u d))"
proof (cases "get_active_entry u d")
  case None
  with assms show ?thesis by (simp add: stop_active_entry_def)
next
  case (Some a)
  with assms show ?thesis
    by (simp add: stop_active_entry_Some entries_wf_update_stopped)
qed

lemma entries_wf_apply_operation:
  assumes "entries_wf d"
  shows "entries_wf (apply_operation op d)"
proof (cases op)
  case (EnsureDefaultCategories u)
  with assms show ?thesis
    by (simp add: entries_wf_def ensure_default_categories_time_entries)
next
  case (AddCategory u name)
  with assms show ?thesis by (simp add: entries_wf_def add_category_time_entries)
next
  case (StartEntry now u category_id task_name)
  with assms show ?thesis by (simp add: entries_wf_start_entry)
next
  case (StopActiveEntry now u)
  with assms show ?thesis by (simp add: entries_wf_stop_active_entry)
qed

lemma entries_wf_fold:
  "entries_wf d \<Longrightarrow> entries_wf (fold apply_operation ops d)"
  by (induction ops arbitrary: d) (simp_all add: entries_wf_apply_operation)

lemma entries_wf_run: "entries_wf (run ops init_db)"
  unfolding run_def by (rule entries_wf_fold) (simp add: entries_wf_def init_db_def)

text \<open>
  The \<^verbatim>\<open>UPDATE\<close> of \<^verbatim>\<open>stop_active_entry\<close> reaches only the row of the entry that
  \<^verbatim>\<open>get_active_entry\<close> found: every row that is not a running row of the join stays
  as it is.
\<close>

lemma other_entry_kept_by_stop:
  assumes wf: "entries_wf d" and te: "te \<in> set (time_entries d)"
    and other: "\<And>r. r \<in> set (joined d) \<Longrightarrow> te_stopped_at (fst r) = None \<Longrightarrow> fst r \<noteq> te"
  shows "te \<in> set (time_entries (snd (stop_active_entry now u d)))"
proof (cases "get_active_entry u d")
  case None
  with te show ?thesis by (simp add: stop_active_entry_def)
next
  case (Some a)
  from get_active_entry_Some [OF Some] obtain r where r: "r \<in> set (joined d)"
    and p: "te_stopped_at (fst r) = None" "ae_id a = te_id (fst r)"
    by blast
  from r have r_in: "fst r \<in> set (time_entries d)" by (rule joined_fst)
  from wf have "inj_on te_id (set (time_entries d))"
    by (simp add: entries_wf_def distinct_map)
  have "te_id te \<noteq> ae_id a"
  proof
    assume "te_id te = ae_id a"
    with p have "te_id te = te_id (fst r)" by simp
    with \<open>inj_on te_id (set (time_entries d))\<close> te r_in have "te = fst r"
      by (simp add: inj_on_def)
    with other [OF r p(1)] show False by simp
  qed
  then have "(\<lambda>e. if te_id e = ae_id a
                  then e\<lparr>te_stopped_at := Some now,
                         te_duration_seconds := Some (whole_seconds (now - ae_started_at a))\<rparr>
                  else e) te = te"
    by simp
  with te have "te \<in> (\<lambda>e. if te_id e = ae_id a
                  then e\<lparr>te_stopped_at := Some now,
                         te_duration_seconds := Some (whole_seconds (now - ae_started_at a))\<rparr>
                  else e) ` set (time_entries d)"
    by (rule_tac x = te in image_eqI) simp_all
  then show ?thesis
    by (simp add: stop_active_entry_Some [OF Some] update_stopped_def)
qed

lemma stopped_entry_kept_by_stop:
  assumes wf: "entries_wf d" and te: "te \<in> set (time_entries d)"
    and stopped: "te_stopped_at te \<noteq> None"
  shows "te \<in> set (time_entries (snd (stop_active_entry now u d)))"
  using wf te
proof (rule other_entry_kept_by_stop)
  fix r :: "time_entry \<times> category"
  assume "te_stopped_at (fst r) = None"
  with stopped show "fst r \<noteq> te" by auto
qed

lemma stopped_entry_kept:
  assumes wf: "entries_wf d" and te: "te \<in> set (time_entries d)"
    and stopped: "te_stopped_at te \<noteq> None"
  shows "te \<in> set (time_entries (apply_operation op d))"
proof (cases op)
  case (EnsureDefaultCategories u)
  with te show ?thesis by (simp add: ensure_default_categories_time_entries)
next
  case (AddCategory u name)
  with te show ?thesis by (simp add: add_category_time_entries)
next
  case (StartEntry now u category_id task_name)
  with te show ?thesis by (simp add: start_entry_time_entries)
next
  case (StopActiveEntry now u)
  with stopped_entry_kept_by_stop [OF wf te stopped] show ?thesis by simp
qed

text \<open>
  C7.  After any sequence of engine operations on the fresh database, every time entry
  has a null duration exactly when its stop timestamp is null.  Each operation is one
  step of the model, so no state between two operations has a stop timestamp without a
  duration: \<^verbatim>\<open>start_entry\<close> adds its row with both null and the one \<^verbatim>\<open>UPDATE\<close> of
  \<^verbatim>\<open>stop_active_entry\<close> sets both.  A row with a stop timestamp is still in the table,
  unchanged, after any further operation.
\<close>

theorem duration_null_iff_stop_null:
  "(\<forall>te\<in>set (time_entries (run ops init_db)).
      (te_duration_seconds te = None) = (te_stopped_at te = None))
   \<and> (\<forall>te\<in>set (time_entries (run ops init_db)).
        te_stopped_at te \<noteq> None \<longrightarrow>
        te \<in> set (time_entries (apply_operation op (run ops init_db))))
   \<and> te_stopped_at (last (time_entries
        (start_entry now u category_id task_name (run ops init_db)))) = None
   \<and> te_duration_seconds (last (time_entries
        (start_entry now u category_id task_name (run ops init_db)))) = None"
proof (intro conjI ballI impI)
  fix te
  assume "te \<in> set (time_entries (run ops init_db))"
  with entries_wf_run [of ops]
  show "(te_duration_seconds te = None) = (te_stopped_at te = None)"
    by (simp add: entries_wf_def list_all_iff)
next
  fix te
  assume "te \<in> set (time_entries (run ops init_db))" and "te_stopped_at te \<noteq> None"
  with entries_wf_run [of ops]
  show "te \<in> set (time_entries (apply_operation op (run ops init_db)))"
    by (rule stopped_entry_kept)
next
  show "te_stopped_at (last (time_entries
        (start_entry now u category_id task_name (run ops init_db)))) = None"
    by (simp add: start_entry_time_entries)
  show "te_duration_seconds (last (time_entries
        (start_entry now u category_id task_name (run ops init_db)))) = None"
    by (simp add: start_entry_time_entries)
qed

theorem duration_null_iff_stop_null_witness:
  "map (\<lambda>te. (te_stopped_at te, te_duration_seconds te)) (time_entries (run report_ops init_db)) =
     [(Some 20500000, Some 10)]
   \<and> time_entries (apply_operation (StopActiveEntry 99000000 1) (run report_ops init_db)) =
       time_entries (run report_ops init_db)
   \<and> hd (time_entries (run report_ops init_db))
       \<in> set (time_entries (apply_operation (StopActiveEntry 99000000 1) (run report_ops init_db)))"
proof -
  have e: "time_entries (run report_ops init_db) =
      [\<lparr>te_id = 1, te_user_id = 1, te_category_id = 1, te_task_name = ''write report'',
        te_started_at = 10000000, te_stopped_at = Some 20500000,
        te_duration_seconds = Some 10\<rparr>]"
    by (simp add: report_db_reachable report_db_def)
  have 1: "hd (time_entries (run report_ops init_db)) \<in> set (time_entries (run report_ops init_db))"
    and 2: "te_stopped_at (hd (time_entries (run report_ops init_db))) \<noteq> None"
    by (simp_all add: e)
  from duration_null_iff_stop_null [of report_ops "StopActiveEntry 99000000 1"] 1 2
  have 3: "hd (time_entries (run report_ops init_db))
       \<in> set (time_entries (apply_operation (StopActiveEntry 99000000 1) (run report_ops init_db)))"
    by blast
  have 4: "time_entries (apply_operation (StopActiveEntry 99000000 1) (run report_ops init_db)) =
       time_entries (run report_ops init_db)"
    by (simp add: report_db_reachable report_db_def stop_active_entry_def get_active_entry_def
        joined_def)
  have 5: "map (\<lambda>te. (te_stopped_at te, te_duration_seconds te))
        (time_entries (run report_ops init_db)) = [(Some 20500000, Some 10)]"
    by (simp add: e)
  from 5 4 3 show ?thesis by (intro conjI)
qed

section \<open>Entries whose category row is missing\<close>

lemma dangling_db_reachable: "run dangling_ops init_db = dangling_db"
  by (simp add: run_def dangling_ops_def dangling_db_def init_db_def start_entry_def
      new_rowid_def Let_def)






section \<open>Statistics\<close>

lemma py_lower_work: "py_lower ''work'' = ''work''"
  by code_simp

lemma shared_name_db_reachable: "run shared_name_ops init_db = shared_name_db"
  by (simp add: run_def shared_name_ops_def shared_name_db_def init_db_def add_category_def
      insert_category_def category_exists_def py_lower_work new_rowid_def start_entry_def
      stop_active_entry_def get_active_entry_def joined_def update_stopped_def
      whole_seconds_def Let_def)

lemma sql_sum_all_Some:
  assumes "list_all (\<lambda>v. v \<noteq> None) vs" and "vs \<noteq> []"
  shows "sql_sum vs = Some (sum_list (map the vs))"
proof -
  from assms(1) have "filter (\<lambda>v. v \<noteq> None) vs = vs" by (simp add: list_all_iff)
  with assms(2) show ?thesis by (cases vs) (simp_all add: sql_sum_def)
qed

lemma in_set_map_iff: "n \<in> set (map f xs) \<longleftrightarrow> (\<exists>x\<in>set xs. f x = n)"
  by (induction xs) auto

lemma stats_rows_iff:
  "r \<in> set (stats_rows since u d) \<longleftrightarrow>
     fst r \<in> set (time_entries d) \<and> snd r \<in> set (categories d)
     \<and> te_category_id (fst r) = cat_id (snd r) \<and> te_user_id (fst r) = u
     \<and> te_stopped_at (fst r) \<noteq> None \<and> since \<le> te_started_at (fst r)"
  using joined_iff [of "fst r" "snd r" d] by (simp add: stats_rows_def conj_ac)

lemma get_stats_set:
  "set (get_stats now u days d) =
     (\<lambda>n. (n, sql_sum (map (\<lambda>r. te_duration_seconds (fst r))
                  (filter (\<lambda>r. cat_name (snd r) = n)
                     (stats_rows (now - days * 86400 * 1000000) u d)))))
       ` set (map (\<lambda>r. cat_name (snd r)) (stats_rows (now - days * 86400 * 1000000) u d))"
  by (simp add: get_stats_def Let_def)

lemma get_stats_names:
  "map fst (get_stats now u days d) =
     rev (map fst (sort_key snd
       (map (\<lambda>n. (n, sql_sum (map (\<lambda>r. te_duration_seconds (fst r))
                  (filter (\<lambda>r. cat_name (snd r) = n)
                     (stats_rows (now - days * 86400 * 1000000) u d)))))
          (remdups (map (\<lambda>r. cat_name (snd r))
             (stats_rows (now - days * 86400 * 1000000) u d))))))"
  by (simp add: get_stats_def Let_def rev_map)

lemma distinct_map_fst_sort_key:
  fixes xs :: "('a \<times> 'b::linorder) list"
  assumes "distinct (map fst xs)"
  shows "distinct (map fst (sort_key snd xs))"
proof -
  from assms have "distinct xs" and "inj_on fst (set xs)" by (simp_all add: distinct_map)
  then have "distinct (sort_key snd xs)" and "inj_on fst (set (sort_key snd xs))" by simp_all
  then show ?thesis by (simp add: distinct_map)
qed

lemma get_stats_distinct: "distinct (map fst (get_stats now u days d))"
proof -
  let ?rows = "stats_rows (now - days * 86400 * 1000000) u d"
  let ?groups = "map (\<lambda>n. (n, sql_sum (map (\<lambda>r. te_duration_seconds (fst r))
                  (filter (\<lambda>r. cat_name (snd r) = n) ?rows))))
          (remdups (map (\<lambda>r. cat_name (snd r)) ?rows))"
  have "map fst ?groups = remdups (map (\<lambda>r. cat_name (snd r)) ?rows)"
    by (simp add: comp_def)
  then have "distinct (map fst ?groups)" by (simp only: distinct_remdups)
  then have "distinct (map fst (sort_key snd ?groups))" by (rule distinct_map_fst_sort_key)
  then show ?thesis by (simp only: get_stats_names distinct_rev)
qed

lemma get_stats_sorted: "sorted (rev (map snd (get_stats now u days d)))"
  by (simp add: get_stats_def Let_def rev_map)

text \<open>
  C8 (as the code has it).  \<^verbatim>\<open>get_stats\<close> works on the rows of the join that belong
  to the user, have a stop timestamp and started at or after the clock minus the window;
  entries that are still running, entries started before that instant and entries whose
  category id matches no category row contribute nothing.  The result has one pair for
  each category \<^emph>\<open>name\<close> among those rows (\<^verbatim>\<open>GROUP BY c.name\<close>), none for any other
  name, the total of a pair is the SQL sum of the durations of the rows of that name, and
  the pairs come with the larger totals first.  On tables where every stopped entry has a
  duration the total is the plain sum of those durations.
\<close>

theorem get_stats_groups:
  assumes "since = now - days * 86400 * 1000000"
  shows "((n, t) \<in> set (get_stats now u days d) \<longleftrightarrow>
            (\<exists>r\<in>set (stats_rows since u d). cat_name (snd r) = n)
            \<and> t = sql_sum (map (\<lambda>r. te_duration_seconds (fst r))
                     (filter (\<lambda>r. cat_name (snd r) = n) (stats_rows since u d))))
       \<and> distinct (map fst (get_stats now u days d))
       \<and> sorted (rev (map snd (get_stats now u days d)))
       \<and> (r \<in> set (stats_rows since u d) \<longleftrightarrow>
            fst r \<in> set (time_entries d) \<and> snd r \<in> set (categories d)
            \<and> te_category_id (fst r) = cat_id (snd r) \<and> te_user_id (fst r) = u
            \<and> te_stopped_at (fst r) \<noteq> None \<and> since \<le> te_started_at (fst r))
       \<and> (entries_wf d \<and> (n, t) \<in> set (get_stats now u days d) \<longrightarrow>
            t = Some (sum_list (map (\<lambda>r. the (te_duration_seconds (fst r)))
                     (filter (\<lambda>r. cat_name (snd r) = n) (stats_rows since u d))))
            \<and> list_all (\<lambda>r. te_duration_seconds (fst r) \<noteq> None)
                 (filter (\<lambda>r. cat_name (snd r) = n) (stats_rows since u d)))"
proof -
  let ?rows = "stats_rows since u d"
  let ?group = "filter (\<lambda>r. cat_name (snd r) = n) ?rows"
  let ?total = "sql_sum (map (\<lambda>r. te_duration_seconds (fst r)) ?group)"
  have mem: "(n, t) \<in> set (get_stats now u days d) \<longleftrightarrow>
      (\<exists>r\<in>set ?rows. cat_name (snd r) = n) \<and> t = ?total"
  proof
    assume "(n, t) \<in> set (get_stats now u days d)"
    then obtain m where m: "m \<in> set (map (\<lambda>r. cat_name (snd r)) ?rows)"
      and eq: "(n, t) = (m, sql_sum (map (\<lambda>r. te_duration_seconds (fst r))
                  (filter (\<lambda>r. cat_name (snd r) = m) ?rows)))"
      unfolding get_stats_set assms by (rule imageE)
    from eq have "m = n" and t: "t = ?total" by simp_all
    from m \<open>m = n\<close> have "\<exists>r\<in>set ?rows. cat_name (snd r) = n"
      by (simp only: in_set_map_iff)
    with t show "(\<exists>r\<in>set ?rows. cat_name (snd r) = n) \<and> t = ?total" by simp
  next
    assume a: "(\<exists>r\<in>set ?rows. cat_name (snd r) = n) \<and> t = ?total"
    then have "n \<in> set (map (\<lambda>r. cat_name (snd r)) ?rows)"
      by (simp only: in_set_map_iff)
    then have "(n, ?total) \<in> set (get_stats now u days d)"
      unfolding get_stats_set assms by (rule imageI)
    with a show "(n, t) \<in> set (get_stats now u days d)" by simp
  qed
  have sums: "t = Some (sum_list (map (\<lambda>r. the (te_duration_seconds (fst r))) ?group))
      \<and> list_all (\<lambda>r. te_duration_seconds (fst r) \<noteq> None) ?group"
    if wf: "entries_wf d" and nt: "(n, t) \<in> set (get_stats now u days d)"
  proof -
    from nt mem have ex: "\<exists>r\<in>set ?rows. cat_name (snd r) = n" and t: "t = ?total" by simp_all
    have all: "list_all (\<lambda>r. te_duration_seconds (fst r) \<noteq> None) ?group"
      unfolding list_all_iff
    proof
      fix r
      assume "r \<in> set ?group"
      then have "r \<in> set ?rows" by simp
      then have "fst r \<in> set (time_entries d)" and s: "te_stopped_at (fst r) \<noteq> None"
        by (simp_all add: stats_rows_iff)
      with wf have "(te_duration_seconds (fst r) = None) = (te_stopped_at (fst r) = None)"
        by (simp add: entries_wf_def list_all_iff)
      with s show "te_duration_seconds (fst r) \<noteq> None" by simp
    qed
    then have 1: "list_all (\<lambda>v. v \<noteq> None) (map (\<lambda>r. te_duration_seconds (fst r)) ?group)"
      by (simp add: list_all_iff)
    from ex have "?group \<noteq> []" by (simp add: filter_empty_conv)
    then have 2: "map (\<lambda>r. te_duration_seconds (fst r)) ?group \<noteq> []" by simp
    from sql_sum_all_Some [OF 1 2] t
    have "t = Some (sum_list (map (\<lambda>r. the (te_duration_seconds (fst r))) ?group))"
      by (simp add: comp_def)
    with all show ?thesis by simp
  qed
  show ?thesis
    using mem get_stats_distinct [of now u days d] get_stats_sorted [of now u days d]
      stats_rows_iff [of r since u d] sums
    by (intro conjI impI) simp_all
qed

theorem get_stats_groups_witness:
  "entries_wf report_db
   \<and> get_stats 60000000 1 7 report_db = [(''work'', Some 10)]
   \<and> map (\<lambda>r. te_duration_seconds (fst r))
       (filter (\<lambda>r. cat_name (snd r) = ''work'')
          (stats_rows (60000000 - 7 * 86400 * 1000000) 1 report_db)) = [Some 10]"
proof -
  have wf: "entries_wf report_db" by (simp add: entries_wf_def report_db_def)
  have g: "get_stats 60000000 1 7 report_db = [(''work'', Some 10)]"
    by (simp add: get_stats_def stats_rows_def joined_def report_db_def sql_sum_def Let_def)
  have rows: "map (\<lambda>r. te_duration_seconds (fst r))
       (filter (\<lambda>r. cat_name (snd r) = ''work'')
          (stats_rows (60000000 - 7 * 86400 * 1000000) 1 report_db)) = [Some 10]"
    by (simp add: stats_rows_def joined_def report_db_def)
  have in_result: "(''work'', Some 10) \<in> set (get_stats 60000000 1 7 report_db)"
    by (simp add: g)
  from get_stats_groups [OF refl, of "''work''" "Some 10" 60000000 1 7 report_db] wf in_result
  have "list_all (\<lambda>r. te_duration_seconds (fst r) \<noteq> None)
         (filter (\<lambda>r. cat_name (snd r) = ''work'')
            (stats_rows (60000000 - 7 * 86400 * 1000000) 1 report_db))"
    by simp
  with wf g rows show ?thesis by simp
qed

text \<open>
  User 2 has completed entries in two categories, ids 1 and 2, both named ``work'': the
  result has one pair with the total of both, not one pair for each category.
\<close>

theorem get_stats_merges_same_name:
  "stats_rows (60000000 - 7 * 86400 * 1000000) 2 (run shared_name_ops init_db) =
     [(\<lparr>te_id = 1, te_user_id = 2, te_category_id = 1, te_task_name = ''a'',
        te_started_at = 10000000, te_stopped_at = Some 20000000,
        te_duration_seconds = Some 10\<rparr>,
       \<lparr>cat_id = 1, cat_user_id = 1, cat_name = ''work''\<rparr>),
      (\<lparr>te_id = 2, te_user_id = 2, te_category_id = 2, te_task_name = ''b'',
        te_started_at = 30000000, te_stopped_at = Some 50000000,
        te_duration_seconds = Some 20\<rparr>,
       \<lparr>cat_id = 2, cat_user_id = 2, cat_name = ''work''\<rparr>)]
   \<and> get_stats 60000000 2 7 (run shared_name_ops init_db) = [(''work'', Some 30)]"
  by (simp add: shared_name_db_reachable get_stats_def stats_rows_def joined_def
      shared_name_db_def sql_sum_def Let_def)

section \<open>Two users\<close>

text \<open>
  C9 at a concrete input.  User 2 has started an entry under category id 1 while no
  category has that id, so \<^verbatim>\<open>get_active_entry(2)\<close> finds nothing.  User 1 then calls
  \<^verbatim>\<open>ensure_default_categories\<close>, which gives id 1 to the category ``work'' of user 1.
  No row of user 2 has changed, but \<^verbatim>\<open>get_active_entry(2)\<close> now returns the entry,
  under the category name of user 1.
\<close>

theorem other_user_query_changes:
  "get_active_entry 2 (run dangling_ops init_db) = None
   \<and> get_active_entry 2 (apply_operation (EnsureDefaultCategories 1) (run dangling_ops init_db)) =
       Some \<lparr>ae_id = 1, ae_task_name = ''walk'', ae_started_at = 10000000,
             ae_category = ''work''\<rparr>
   \<and> time_entries (apply_operation (EnsureDefaultCategories 1) (run dangling_ops init_db)) =
       time_entries (run dangling_ops init_db)
   \<and> get_categories 2 (apply_operation (EnsureDefaultCategories 1) (run dangling_ops init_db)) =
       get_categories 2 (run dangling_ops init_db)"
  by (simp add: dangling_db_reachable dangling_db_def ensure_default_categories_def
      DEFAULT_CATEGORIES_def insert_or_ignore_category_def category_exists_def new_rowid_def
      get_active_entry_def joined_def get_categories_def Let_def)

text \<open>
  What does hold between two users: an operation on behalf of one user changes no row of
  another, in either table, and so leaves the other user's list of categories as it was.
\<close>

lemma insert_or_ignore_other_user:
  "u \<noteq> v \<Longrightarrow>
   filter (\<lambda>c. cat_user_id c = v) (categories (insert_or_ignore_category u n d)) =
     filter (\<lambda>c. cat_user_id c = v) (categories d)"
  by (simp add: insert_or_ignore_category_def Let_def)

lemma fold_insert_other_user:
  "u \<noteq> v \<Longrightarrow>
   filter (\<lambda>c. cat_user_id c = v) (categories (fold (insert_or_ignore_category u) ns d)) =
     filter (\<lambda>c. cat_user_id c = v) (categories d)"
  by (induction ns arbitrary: d) (simp_all add: insert_or_ignore_other_user)

lemma add_category_other_user:
  "u \<noteq> v \<Longrightarrow>
   filter (\<lambda>c. cat_user_id c = v) (categories (snd (add_category u name d))) =
     filter (\<lambda>c. cat_user_id c = v) (categories d)"
  by (cases "category_exists u (py_lower name) d")
    (simp_all add: add_category_exists add_category_new)

lemma stop_active_entry_categories:
  "categories (snd (stop_active_entry now u d)) = categories d"
  by (cases "get_active_entry u d")
    (simp_all add: stop_active_entry_def update_stopped_def Let_def)

lemma filter_map_unchanged:
  assumes "\<And>x. x \<in> set xs \<Longrightarrow> P x \<Longrightarrow> f x = x"
    and "\<And>x. x \<in> set xs \<Longrightarrow> \<not> P x \<Longrightarrow> \<not> P (f x)"
  shows "filter P (map f xs) = filter P xs"
  using assms
proof (induction xs)
  case Nil
  show ?case by simp
next
  case (Cons x xs)
  have IH: "filter P (map f xs) = filter P xs"
    by (rule Cons.IH) (simp_all add: Cons.prems)
  show ?case
  proof (cases "P x")
    case True
    with Cons.prems(1) [of x] have "f x = x" by simp
    with True IH show ?thesis by simp
  next
    case False
    with Cons.prems(2) [of x] have "\<not> P (f x)" by simp
    with False IH show ?thesis by simp
  qed
qed

lemma stop_active_entry_other_user:
  assumes wf: "entries_wf d" and "u \<noteq> v"
  shows "filter (\<lambda>te. te_user_id te = v) (time_entries (snd (stop_active_entry now u d))) =
           filter (\<lambda>te. te_user_id te = v) (time_entries d)"
proof (cases "get_active_entry u d")
  case None
  then show ?thesis by (simp add: stop_active_entry_def)
next
  case (Some a)
  let ?f = "\<lambda>e. if te_id e = ae_id a
                then e\<lparr>te_stopped_at := Some now,
                       te_duration_seconds := Some (whole_seconds (now - ae_started_at a))\<rparr>
                else e"
  from get_active_entry_Some [OF Some] obtain r where r: "r \<in> set (joined d)"
    and p: "te_user_id (fst r) = u" "ae_id a = te_id (fst r)"
    by blast
  from r have r_in: "fst r \<in> set (time_entries d)" by (rule joined_fst)
  from wf have inj: "inj_on te_id (set (time_entries d))"
    by (simp add: entries_wf_def distinct_map)
  have "filter (\<lambda>te. te_user_id te = v) (map ?f (time_entries d)) =
          filter (\<lambda>te. te_user_id te = v) (time_entries d)"
  proof (rule filter_map_unchanged)
    fix x
    assume x: "x \<in> set (time_entries d)" and v: "te_user_id x = v"
    have "te_id x \<noteq> ae_id a"
    proof
      assume "te_id x = ae_id a"
      with p have "te_id x = te_id (fst r)" by simp
      with inj x r_in have "x = fst r" by (simp add: inj_on_def)
      with p v \<open>u \<noteq> v\<close> show False by simp
    qed
    then show "?f x = x" by simp
  next
    fix x
    assume "te_user_id x \<noteq> v"
    then show "te_user_id (?f x) \<noteq> v" by simp
  qed
  then show ?thesis by (simp add: stop_active_entry_Some [OF Some] update_stopped_def)
qed

lemma other_user_rows_unchanged:
  assumes "entries_wf d" and "operation_user op \<noteq> v"
  shows "filter (\<lambda>c. cat_user_id c = v) (categories (apply_operation op d)) =
           filter (\<lambda>c. cat_user_id c = v) (categories d)
       \<and> filter (\<lambda>te. te_user_id te = v) (time_entries (apply_operation op d)) =
           filter (\<lambda>te. te_user_id te = v) (time_entries d)
       \<and> get_categories v (apply_operation op d) = get_categories v d"
proof -
  have c: "filter (\<lambda>c. cat_user_id c = v) (categories (apply_operation op d)) =
           filter (\<lambda>c. cat_user_id c = v) (categories d)"
  proof (cases op)
    case (EnsureDefaultCategories u)
    with assms(2) show ?thesis
      by (simp add: ensure_default_categories_def fold_insert_other_user)
  next
    case (AddCategory u name)
    with assms(2) show ?thesis by (simp add: add_category_other_user)
  next
    case (StartEntry now u category_id task_name)
    then show ?thesis by (simp add: start_entry_def Let_def)
  next
    case (StopActiveEntry now u)
    then show ?thesis by (simp add: stop_active_entry_categories)
  qed
  have e: "filter (\<lambda>te. te_user_id te = v) (time_entries (apply_operation op d)) =
           filter (\<lambda>te. te_user_id te = v) (time_entries d)"
  proof (cases op)
    case (EnsureDefaultCategories u)
    then show ?thesis by (simp add: ensure_default_categories_time_entries)
  next
    case (AddCategory u name)
    then show ?thesis by (simp add: add_category_time_entries)
  next
    case (StartEntry now u category_id task_name)
    with assms(2) show ?thesis by (simp add: start_entry_time_entries)
  next
    case (StopActiveEntry now u)
    with assms show ?thesis by (simp add: stop_active_entry_other_user)
  qed
  from c have "get_categories v (apply_operation op d) = get_categories v d"
    by (simp add: get_categories_def)
  with c e show ?thesis by simp
qed

end
